theory Spec2Isabelle
  imports Main "HOL-Library.Sublist"
begin

section \<open>Data model of \<open>src/index.tsx\<close>\<close>

text \<open>
  The three interfaces of the source. Field names carry the record's name as a prefix,
  because \<open>text\<close>, \<open>id\<close> and \<open>filter\<close> are taken in Isabelle. A post's \<open>timestamp\<close> is
  an ISO string in the source and is only ever read through \<open>new Date(...).getTime()\<close>;
  the model keeps the epoch-millisecond integer that this call yields (the feed handler
  builds every timestamp with \<open>toISOString()\<close>, so the string always parses), and the
  rows of table \<open>posts\<close> (columns uri, author, text, timestamp) have the same four fields.
\<close>

record Post =
  post_author :: string
  post_text :: string
  post_timestamp :: int
  post_uri :: string

record Session =
  session_id :: string
  session_name :: string

record Tab =
  tab_id :: string
  tab_sessionId :: string
  tab_filter :: string

definition MIN_FILTER_LENGTH :: nat where
  "MIN_FILTER_LENGTH = 3"

definition POST_RETENTION_MS :: int where
  "POST_RETENTION_MS = 60 * 60 * 1000"

text \<open>
  The listeners that a live connection registers on the global emitter \<open>events\<close> are
  closures; a closure is identified by the number of the connection that created it.
\<close>

datatype listener = PostsListener nat | FilterListener nat

text \<open>One call of \<open>events.emit(name, arg)\<close>, kept in a trace of the run.\<close>

datatype emitted = Emitted string "string option"

text \<open>
  What the callback of \<open>streamSSE\<close> closes over: the session, the reference to the
  \<open>tab\<close> object, the "update" events that \<open>updateQueue\<close> has handed to the
  \<open>for await\<close> loop and that are not rendered yet, and whether \<open>ac\<close> has aborted.
\<close>

record LiveConn =
  lc_session :: Session
  lc_tab :: nat
  lc_pending :: nat
  lc_aborted :: bool

text \<open>
  The module state. \<open>Tab\<close> objects are mutable and shared between the map \<open>tabs\<close> and the
  closures, so they live in a store \<open>heap\<close> addressed by references; \<open>tabs\<close> maps a
  tab id to the reference of its object. \<open>posts\<close> is the table, its rows in insertion
  order.
\<close>

record state =
  posts :: "Post list"
  batchBuffer :: "Post list"
  sessions :: "string \<rightharpoonup> Session"
  tabs :: "string \<rightharpoonup> nat"
  heap :: "nat \<Rightarrow> Tab"
  next_ref :: nat
  events :: "string \<Rightarrow> listener list"
  conns :: "nat \<Rightarrow> LiveConn"
  next_conn :: nat
  trace :: "emitted list"

definition init_state :: state where
  "init_state =
     \<lparr>posts = [], batchBuffer = [], sessions = Map.empty, tabs = Map.empty,
      heap = (\<lambda>_. \<lparr>tab_id = [], tab_sessionId = [], tab_filter = []\<rparr>), next_ref = 0,
      events = (\<lambda>_. []),
      conns = (\<lambda>_. \<lparr>lc_session = \<lparr>session_id = [], session_name = []\<rparr>, lc_tab = 0,
                     lc_pending = 0, lc_aborted = True\<rparr>),
      next_conn = 0, trace = []\<rparr>"

section \<open>The statements run on the table\<close>

text \<open>
  \<open>INSERT OR IGNORE\<close> on a table whose primary key is \<open>uri\<close>: a row whose uri is
  already there is skipped.
\<close>

definition insert_or_ignore :: "Post \<Rightarrow> Post list \<Rightarrow> Post list" where
  "insert_or_ignore p tbl = (if post_uri p \<in> set (map post_uri tbl) then tbl else tbl @ [p])"

definition insertMany :: "Post list \<Rightarrow> Post list \<Rightarrow> Post list" where
  "insertMany ps tbl = fold insert_or_ignore ps tbl"

text \<open>
  The \<open>LIKE\<close> operator as the table's engine evaluates it with its default settings:
  \<open>%\<close> in the pattern stands for any run of characters, \<open>_\<close> for any one character,
  and every other character is compared after folding the 26 ASCII upper-case letters to
  lower case. The first argument is the pattern.
\<close>

definition sqlite3Tolower :: "char \<Rightarrow> char" where
  "sqlite3Tolower c =
     (case map_of (zip ''ABCDEFGHIJKLMNOPQRSTUVWXYZ'' ''abcdefghijklmnopqrstuvwxyz'') c of
        Some l \<Rightarrow> l
      | None \<Rightarrow> c)"

fun sqlite_like :: "string \<Rightarrow> string \<Rightarrow> bool" where
  "sqlite_like [] [] = True"
| "sqlite_like [] (c # cs) = False"
| "sqlite_like (p # ps) [] = (p = CHR ''%'' \<and> sqlite_like ps [])"
| "sqlite_like (p # ps) (c # cs) =
     (if p = CHR ''%'' then sqlite_like ps (c # cs) \<or> sqlite_like (p # ps) cs
      else (p = CHR ''_'' \<or> sqlite3Tolower p = sqlite3Tolower c) \<and> sqlite_like ps cs)"

text \<open>
  \<open>ORDER BY timestamp DESC\<close>. The engine leaves the order of rows with equal
  timestamps open; the model keeps them in insertion order.
\<close>

definition order_by_timestamp_desc :: "Post list \<Rightarrow> Post list" where
  "order_by_timestamp_desc rows = sort_key (\<lambda>r. - post_timestamp r) rows"

definition queryPosts :: "string \<Rightarrow> Post list \<Rightarrow> Post list" where
  "queryPosts flt tbl =
     (if flt \<noteq> []
      then take 100 (order_by_timestamp_desc
             (filter (\<lambda>r. sqlite_like (''%'' @ flt @ ''%'') (post_text r)) tbl))
      else take 100 (order_by_timestamp_desc tbl))"

definition getTotalCount :: "Post list \<Rightarrow> nat" where
  "getTotalCount tbl = length tbl"

section \<open>The emitter\<close>

text \<open>
  \<open>updateQueue.emit("update")\<close> on the queue of connection \<open>c\<close>: the only listener
  of that queue is the iterator of the \<open>for await\<close> loop, which is there until the
  abort signal fires.
\<close>

definition updateQueue_emit :: "nat \<Rightarrow> state \<Rightarrow> state" where
  "updateQueue_emit c st =
     (if lc_aborted (conns st c) then st
      else st\<lparr>conns := (conns st)(c := (conns st c)\<lparr>lc_pending := lc_pending (conns st c) + 1\<rparr>)\<rparr>)"

fun call_listener :: "listener \<Rightarrow> string option \<Rightarrow> state \<Rightarrow> state" where
  "call_listener (PostsListener c) arg st = updateQueue_emit c st"
| "call_listener (FilterListener c) arg st =
     (if arg = Some (tab_id (heap st (lc_tab (conns st c)))) then updateQueue_emit c st else st)"

definition emit :: "string \<Rightarrow> string option \<Rightarrow> state \<Rightarrow> state" where
  "emit name arg st =
     fold (\<lambda>l. call_listener l arg) (events st name) (st\<lparr>trace := trace st @ [Emitted name arg]\<rparr>)"

definition events_on :: "string \<Rightarrow> listener \<Rightarrow> state \<Rightarrow> state" where
  "events_on name l st = st\<lparr>events := (events st)(name := events st name @ [l])\<rparr>"

text \<open>\<open>events.off\<close> takes out one registration of the listener, the latest one.\<close>

definition remove_last :: "'a \<Rightarrow> 'a list \<Rightarrow> 'a list" where
  "remove_last x xs = rev (remove1 x (rev xs))"

definition events_off :: "string \<Rightarrow> listener \<Rightarrow> state \<Rightarrow> state" where
  "events_off name l st = st\<lparr>events := (events st)(name := remove_last l (events st name))\<rparr>"

section \<open>The ingest buffer\<close>

definition flushPosts :: "state \<Rightarrow> state" where
  "flushPosts st =
     (if length (batchBuffer st) = 0 then st
      else emit ''posts.added'' None
             (st\<lparr>posts := insertMany (batchBuffer st) (posts st), batchBuffer := []\<rparr>))"

definition addPost :: "Post \<Rightarrow> state \<Rightarrow> state" where
  "addPost post st =
     (let st1 = st\<lparr>batchBuffer := batchBuffer st @ [post]\<rparr>
      in if length (batchBuffer st1) \<ge> 100 then flushPosts st1 else st1)"

text \<open>\<open>now\<close> is the value of \<open>Date.now()\<close>.\<close>

definition cleanupOldPosts :: "int \<Rightarrow> state \<Rightarrow> state" where
  "cleanupOldPosts now st =
     (let cutoff = now - POST_RETENTION_MS
      in st\<lparr>posts := filter (\<lambda>r. \<not> post_timestamp r < cutoff) (posts st)\<rparr>)"

section \<open>Sessions and tabs\<close>

text \<open>
  Identifiers arrive as a string or not at all (\<open>undefined\<close>); JavaScript takes the
  empty string for false as well.
\<close>

definition truthy :: "string option \<Rightarrow> bool" where
  "truthy v = (case v of None \<Rightarrow> False | Some s \<Rightarrow> s \<noteq> [])"

text \<open>\<open>v || d\<close>\<close>

definition or_else :: "string option \<Rightarrow> string \<Rightarrow> string" where
  "or_else v d = (case v of None \<Rightarrow> d | Some s \<Rightarrow> if s = [] then d else s)"

text \<open>\<open>k && m.has(k)\<close>, then \<open>m.get(k)\<close>\<close>

definition lookup_truthy :: "(string \<rightharpoonup> 'a) \<Rightarrow> string option \<Rightarrow> 'a option" where
  "lookup_truthy m k = (case k of None \<Rightarrow> None | Some s \<Rightarrow> if s = [] then None else m s)"

text \<open>
  \<open>uuid\<close> is the value \<open>crypto.randomUUID()\<close> would return and \<open>name\<close> the one
  \<open>generateSessionName()\<close> would return.
\<close>

definition getOrCreateSession :: "string option \<Rightarrow> string \<Rightarrow> string \<Rightarrow> state \<Rightarrow> Session \<times> state" where
  "getOrCreateSession sessionId uuid name st =
     (case lookup_truthy (sessions st) sessionId of
        Some s \<Rightarrow> (s, st)
      | None \<Rightarrow>
          (let session = \<lparr>session_id = uuid, session_name = name\<rparr>
           in (session, st\<lparr>sessions := (sessions st)(session_id session \<mapsto> session)\<rparr>)))"

text \<open>Returns the reference of the tab object.\<close>

definition getOrCreateTab :: "string option \<Rightarrow> string \<Rightarrow> string \<Rightarrow> state \<Rightarrow> nat \<times> state" where
  "getOrCreateTab tabId sessionId uuid st =
     (case lookup_truthy (tabs st) tabId of
        Some r \<Rightarrow> (r, st)
      | None \<Rightarrow>
          (let tab = \<lparr>tab_id = or_else tabId uuid, tab_sessionId = sessionId, tab_filter = []\<rparr>;
               r = next_ref st
           in (r, st\<lparr>heap := (heap st)(r := tab), next_ref := r + 1,
                     tabs := (tabs st)(tab_id tab \<mapsto> r)\<rparr>)))"

section \<open>The live connection\<close>

text \<open>
  What one pass of \<open>sendUpdate\<close> hands to the three components it renders: the
  properties of \<open>Posts\<close>, of \<open>Stats\<close> and of \<open>DebugInfo\<close>. The markup itself is not
  modelled.
\<close>

record patch =
  patch_posts :: "Post list \<times> string"
  patch_stats :: "string \<times> nat \<times> nat"
  patch_debug :: "Session \<times> Tab \<times> nat"

definition sendUpdate :: "nat \<Rightarrow> state \<Rightarrow> patch" where
  "sendUpdate c st =
     (let tab = heap st (lc_tab (conns st c));
          flt = (if length (tab_filter tab) \<ge> MIN_FILTER_LENGTH then tab_filter tab else []);
          ps = queryPosts flt (posts st);
          totalCount = getTotalCount (posts st)
      in \<lparr>patch_posts = (ps, flt),
          patch_stats = (flt, length ps, totalCount),
          patch_debug = (lc_session (conns st c), tab, totalCount)\<rparr>)"

text \<open>
  The handler of the abort signal, together with the end of the iterator on the same
  signal. A signal aborts once.
\<close>

definition abort :: "nat \<Rightarrow> state \<Rightarrow> state" where
  "abort c st =
     (if lc_aborted (conns st c) then st
      else
        (let st1 = events_off ''posts.added'' (PostsListener c) st;
             st2 = events_off ''filter.updated'' (FilterListener c) st1;
             st3 = st2\<lparr>tabs := (tabs st2)(tab_id (heap st2 (lc_tab (conns st2 c))) := None)\<rparr>
         in st3\<lparr>conns := (conns st3)(c := (conns st3 c)\<lparr>lc_aborted := True\<rparr>)\<rparr>))"

section \<open>The two routes\<close>

datatype response =
    JsonError string nat
  | NullBody
  | HtmlPage Session Tab
  | SseStream nat

text \<open>
  A request to \<open>/\<close>: whether the header \<open>datastar-request\<close> is there, the
  \<open>sessionId\<close> and \<open>tabId\<close> of the signals when the query parameter is there and
  parses, the \<open>sessionId\<close> of the cookie when there is one, and the values the random
  generators return while the request is served.
\<close>

record get_request =
  isDatastarRequest :: bool
  signals :: "(string option \<times> string option) option"
  cookie_sessionId :: "string option"
  session_uuid :: string
  session_name_gen :: string
  tab_uuid :: string

definition get_root :: "get_request \<Rightarrow> state \<Rightarrow> response \<times> state" where
  "get_root req st =
     (let (sessionId, tabId) =
            (if isDatastarRequest req
             then (case signals req of
                     Some (sid, tid) \<Rightarrow> (sid, if truthy tid then tid else None)
                   | None \<Rightarrow> (None, None))
             else (cookie_sessionId req, None));
          (session, st1) = getOrCreateSession sessionId (session_uuid req) (session_name_gen req) st
      in if isDatastarRequest req
         then
           (let (r, st2) = getOrCreateTab tabId (session_id session) (tab_uuid req) st1;
                c = next_conn st2;
                st3 = st2\<lparr>conns := (conns st2)(c := \<lparr>lc_session = session, lc_tab = r,
                                                       lc_pending = 0, lc_aborted = False\<rparr>),
                          next_conn := c + 1\<rparr>;
                st4 = events_on ''posts.added'' (PostsListener c) st3;
                st5 = events_on ''filter.updated'' (FilterListener c) st4
            in (SseStream c, st5))
         else
           (let tab = \<lparr>tab_id = tab_uuid req, tab_sessionId = session_id session, tab_filter = []\<rparr>
            in (HtmlPage session tab, st1)))"

text \<open>
  The JSON body of a request to \<open>/filter\<close>: its fields \<open>tabId\<close> and \<open>filter\<close>,
  each a string or absent. A body that is not a JSON object makes the handler throw
  before its first statement and is not a value of this type.
\<close>

record filter_body =
  body_tabId :: "string option"
  body_filter :: "string option"

text \<open>The assignment \<open>tab.filter = v\<close> to the object at reference \<open>r\<close>.\<close>

definition set_tab_filter :: "nat \<Rightarrow> string \<Rightarrow> state \<Rightarrow> state" where
  "set_tab_filter r v st = st\<lparr>heap := (heap st)(r := (heap st r)\<lparr>tab_filter := v\<rparr>)\<rparr>"

definition post_filter :: "filter_body \<Rightarrow> state \<Rightarrow> response \<times> state" where
  "post_filter body st =
     (if \<not> truthy (body_tabId body) then (JsonError ''Missing tab ID'' 400, st)
      else
        (case tabs st (the (body_tabId body)) of
           None \<Rightarrow> (JsonError ''Tab not found'' 404, st)
         | Some r \<Rightarrow>
             (let st1 = set_tab_filter r (or_else (body_filter body) []) st
              in (NullBody, emit ''filter.updated'' (Some (tab_id (heap st1 r))) st1))))"

section \<open>The event loop\<close>

text \<open>
  Every callback runs to completion before the next one starts: a message of the feed
  that yields a post, a tick of the flush timer, a tick of the cleanup timer with the
  clock's value, a request to either route, and the abort of a live connection.
\<close>

datatype action =
    AddPost Post
  | FlushTick
  | CleanupTick int
  | GetRoot get_request
  | PostFilter filter_body
  | Abort nat

fun step :: "action \<Rightarrow> state \<Rightarrow> state" where
  "step (AddPost p) st = addPost p st"
| "step FlushTick st = flushPosts st"
| "step (CleanupTick now) st = cleanupOldPosts now st"
| "step (GetRoot req) st = snd (get_root req st)"
| "step (PostFilter body) st = snd (post_filter body st)"
| "step (Abort c) st = abort c st"

section \<open>Notions used in the statements\<close>



text \<open>The filter of the tab that the map \<open>tabs\<close> holds under an id, if it holds one.\<close>

definition view_filter :: "state \<Rightarrow> string \<Rightarrow> string option" where
  "view_filter st k = map_option (\<lambda>r. tab_filter (heap st r)) (tabs st k)"


fun listener_conn :: "listener \<Rightarrow> nat" where
  "listener_conn (PostsListener c) = c"
| "listener_conn (FilterListener c) = c"

fun is_filter_listener :: "listener \<Rightarrow> bool" where
  "is_filter_listener (FilterListener c) = True"
| "is_filter_listener (PostsListener c) = False"

text \<open>
  What holds of the registries in every state the event loop reaches: a tab is stored
  under its own id and its object is allocated; every registered listener belongs to a
  connection that was opened; no listener is registered twice under one name; and under
  \<open>filter.updated\<close> there are only filter listeners.
\<close>

definition registries_ok :: "state \<Rightarrow> bool" where
  "registries_ok st \<longleftrightarrow>
     (\<forall>k r. tabs st k = Some r \<longrightarrow> tab_id (heap st r) = k \<and> r < next_ref st)
   \<and> (\<forall>n l. l \<in> set (events st n) \<longrightarrow> listener_conn l < next_conn st)
   \<and> (\<forall>n. distinct (events st n))
   \<and> (\<forall>l \<in> set (events st ''filter.updated''). is_filter_listener l)"

text \<open>The three events of the end-to-end scenario; the third repeats the id of the first.\<close>

definition E1 :: Post where
  "E1 = \<lparr>post_author = ''did:plc:alice'', post_text = ''hello world'', post_timestamp = 1000,
         post_uri = ''u1''\<rparr>"

definition E2 :: Post where
  "E2 = \<lparr>post_author = ''did:plc:bob'', post_text = ''goodbye'', post_timestamp = 2000,
         post_uri = ''u2''\<rparr>"

definition E3 :: Post where
  "E3 = \<lparr>post_author = ''did:plc:carol'', post_text = ''duplicate'', post_timestamp = 3000,
         post_uri = ''u1''\<rparr>"


text \<open>
  The identifiers a live request carries: those of the signals, an empty \<open>tabId\<close>
  counting as none.
\<close>

definition live_ids :: "get_request \<Rightarrow> string option \<times> string option" where
  "live_ids req = (case signals req of
                     Some (sid, tid) \<Rightarrow> (sid, if truthy tid then tid else None)
                   | None \<Rightarrow> (None, None))"

text \<open>
  Sample requests: two live connections for the tabs \<open>tab-A\<close> and \<open>tab-B\<close>, a plain
  page request, and a live connection for the tab id that the plain page was given. The
  state \<open>two_tabs\<close> is the one after the first two.
\<close>

definition req_A :: get_request where
  "req_A = \<lparr>isDatastarRequest = True, signals = Some (None, Some ''tab-A''),
            cookie_sessionId = None, session_uuid = ''session-1'',
            session_name_gen = ''happy-fox'', tab_uuid = ''uuid-1''\<rparr>"

definition req_B :: get_request where
  "req_B = \<lparr>isDatastarRequest = True, signals = Some (Some ''session-1'', Some ''tab-B''),
            cookie_sessionId = None, session_uuid = ''session-2'',
            session_name_gen = ''quiet-owl'', tab_uuid = ''uuid-2''\<rparr>"


definition two_tabs :: state where
  "two_tabs = fold step [GetRoot req_A, GetRoot req_B] init_state"


section \<open>Facts about \<open>LIKE\<close>, ordering and the limit\<close>








lemma order_desc_set [simp]: "set (order_by_timestamp_desc rows) = set rows"
  by (simp add: order_by_timestamp_desc_def)

lemma order_desc_length [simp]: "length (order_by_timestamp_desc rows) = length rows"
  by (simp add: order_by_timestamp_desc_def)

lemma order_desc_distinct [simp]: "distinct (order_by_timestamp_desc rows) = distinct rows"
  by (simp add: order_by_timestamp_desc_def)






lemma set_queryPosts: "set (queryPosts flt tbl) \<subseteq> set tbl"
proof -
  have a: "set (take 100 (order_by_timestamp_desc xs)) \<subseteq> set xs" for xs
    using set_take_subset [of 100 "order_by_timestamp_desc xs"] by simp
  then have "set (take 100 (order_by_timestamp_desc (filter Q tbl))) \<subseteq> set tbl" for Q
    using filter_is_subset [of Q tbl] by (rule order_trans)
  then show ?thesis using a unfolding queryPosts_def by (simp del: append.simps)
qed

lemma take_filter_mem:
  "x \<in> set (take n xs) \<Longrightarrow> P x \<Longrightarrow> x \<in> set (take n (filter P xs))"
proof (induction xs arbitrary: n)
  case Nil
  then show ?case by simp
next
  case (Cons a xs)
  show ?case
  proof (cases n)
    case 0
    then show ?thesis using Cons.prems by simp
  next
    case (Suc m)
    show ?thesis
    proof (cases "x = a")
      case True
      then show ?thesis using Cons.prems Suc by simp
    next
      case False
      then have xin: "x \<in> set (take m xs)" using Cons.prems Suc by simp
      have i1: "x \<in> set (take m (filter P xs))" using Cons.IH [OF xin Cons.prems(2)] .
      have "set (take m (filter P xs)) \<subseteq> set (take (Suc m) (filter P xs))"
        by (simp add: set_take_subset_set_take)
      then show ?thesis using i1 Suc by (auto dest: in_set_takeD)
    qed
  qed
qed

lemma order_desc_filter:
  "order_by_timestamp_desc (filter P xs) = filter P (order_by_timestamp_desc xs)"
  by (simp add: order_by_timestamp_desc_def filter_sort)

lemma queryPosts_filter_mem:
  assumes "r \<in> set (queryPosts flt tbl)" "P r"
  shows "r \<in> set (queryPosts flt (filter P tbl))"
proof (cases "flt = []")
  case True
  then show ?thesis using assms
    by (simp add: queryPosts_def order_desc_filter take_filter_mem)
next
  case False
  let ?L = "\<lambda>r. sqlite_like (''%'' @ flt @ ''%'') (post_text r)"
  have "filter ?L (filter P tbl) = filter P (filter ?L tbl)"
    by (simp add: conj_commute)
  then have "queryPosts flt (filter P tbl) = take 100 (filter P (order_by_timestamp_desc (filter ?L tbl)))"
    using False by (simp add: queryPosts_def order_desc_filter del: append.simps)
  moreover have "r \<in> set (take 100 (order_by_timestamp_desc (filter ?L tbl)))"
    using assms(1) False by (simp add: queryPosts_def)
  ultimately show ?thesis using assms(2) by (simp add: take_filter_mem del: append.simps)
qed


section \<open>Facts about the emitter\<close>

lemma updateQueue_emit_fields [simp]:
  "posts (updateQueue_emit c st) = posts st"
  "batchBuffer (updateQueue_emit c st) = batchBuffer st"
  "sessions (updateQueue_emit c st) = sessions st"
  "tabs (updateQueue_emit c st) = tabs st"
  "heap (updateQueue_emit c st) = heap st"
  "next_ref (updateQueue_emit c st) = next_ref st"
  "events (updateQueue_emit c st) = events st"
  "next_conn (updateQueue_emit c st) = next_conn st"
  "trace (updateQueue_emit c st) = trace st"
  by (simp_all add: updateQueue_emit_def)

lemma call_listener_fields [simp]:
  "posts (call_listener l a st) = posts st"
  "batchBuffer (call_listener l a st) = batchBuffer st"
  "sessions (call_listener l a st) = sessions st"
  "tabs (call_listener l a st) = tabs st"
  "heap (call_listener l a st) = heap st"
  "next_ref (call_listener l a st) = next_ref st"
  "events (call_listener l a st) = events st"
  "next_conn (call_listener l a st) = next_conn st"
  "trace (call_listener l a st) = trace st"
  by (cases l; simp)+

lemma fold_call_fields [simp]:
  "posts (fold (\<lambda>l. call_listener l a) ls st) = posts st"
  "batchBuffer (fold (\<lambda>l. call_listener l a) ls st) = batchBuffer st"
  "sessions (fold (\<lambda>l. call_listener l a) ls st) = sessions st"
  "tabs (fold (\<lambda>l. call_listener l a) ls st) = tabs st"
  "heap (fold (\<lambda>l. call_listener l a) ls st) = heap st"
  "next_ref (fold (\<lambda>l. call_listener l a) ls st) = next_ref st"
  "events (fold (\<lambda>l. call_listener l a) ls st) = events st"
  "next_conn (fold (\<lambda>l. call_listener l a) ls st) = next_conn st"
  "trace (fold (\<lambda>l. call_listener l a) ls st) = trace st"
  by (induction ls arbitrary: st; simp)+

lemma emit_fields [simp]:
  "posts (emit n a st) = posts st"
  "batchBuffer (emit n a st) = batchBuffer st"
  "sessions (emit n a st) = sessions st"
  "tabs (emit n a st) = tabs st"
  "heap (emit n a st) = heap st"
  "next_ref (emit n a st) = next_ref st"
  "events (emit n a st) = events st"
  "next_conn (emit n a st) = next_conn st"
  "trace (emit n a st) = trace st @ [Emitted n a]"
  by (simp_all add: emit_def)



section \<open>Facts about the bulk insert and the buffer\<close>

lemma insert_or_ignore_distinct:
  "distinct (map post_uri tbl) \<Longrightarrow> distinct (map post_uri (insert_or_ignore p tbl))"
  by (simp add: insert_or_ignore_def)

lemma insert_or_ignore_mem: "r \<in> set tbl \<Longrightarrow> r \<in> set (insert_or_ignore p tbl)"
  by (simp add: insert_or_ignore_def)

lemma insertMany_distinct:
  "distinct (map post_uri tbl) \<Longrightarrow> distinct (map post_uri (insertMany ps tbl))"
  unfolding insertMany_def
  by (induction ps arbitrary: tbl) (simp_all add: insert_or_ignore_distinct)

lemma insertMany_mem: "r \<in> set tbl \<Longrightarrow> r \<in> set (insertMany ps tbl)"
  unfolding insertMany_def
  by (induction ps arbitrary: tbl) (simp_all add: insert_or_ignore_mem)

lemma unique_row:
  "distinct (map post_uri tbl) \<Longrightarrow> r \<in> set tbl \<Longrightarrow> filter (\<lambda>x. post_uri x = post_uri r) tbl = [r]"
proof (induction tbl)
  case Nil
  then show ?case by simp
next
  case (Cons a tbl)
  show ?case
  proof (cases "a = r")
    case True
    have "post_uri r \<notin> post_uri ` set tbl" using Cons.prems(1) True by simp
    then have "\<forall>x \<in> set tbl. post_uri x \<noteq> post_uri r" by (metis imageI)
    then have "filter (\<lambda>x. post_uri x = post_uri r) tbl = []" by (simp add: filter_empty_conv)
    then show ?thesis using True by simp
  next
    case False
    then have rin: "r \<in> set tbl" using Cons.prems(2) by simp
    then have "post_uri r \<in> post_uri ` set tbl" by (rule imageI)
    then have "post_uri a \<noteq> post_uri r" using Cons.prems(1) by auto
    then show ?thesis using Cons.IH rin Cons.prems(1) by simp
  qed
qed

lemma posts_flushPosts:
  "posts (flushPosts st) = insertMany (batchBuffer st) (posts st)"
  by (simp add: flushPosts_def insertMany_def)







lemma insertMany_fresh:
  "distinct (map post_uri ps) \<Longrightarrow> set (map post_uri ps) \<inter> set (map post_uri tbl) = {} \<Longrightarrow>
     insertMany ps tbl = tbl @ ps"
  unfolding insertMany_def
proof (induction ps arbitrary: tbl)
  case Nil
  then show ?case by simp
next
  case (Cons p ps)
  have a: "insert_or_ignore p tbl = tbl @ [p]" using Cons.prems(2) by (auto simp: insert_or_ignore_def)
  have "fold insert_or_ignore ps (tbl @ [p]) = (tbl @ [p]) @ ps"
    using Cons.prems by (intro Cons.IH) auto
  then show ?case using a by simp
qed


text \<open>
  The end-to-end scenario: the three events in one flush leave two rows, the first of
  them with its original text, and the three queries return what is expected of them.
\<close>

lemma end_to_end_scenario:
  "posts (flushPosts (init_state\<lparr>batchBuffer := [E1, E2, E3]\<rparr>)) = [E1, E2]"
  "queryPosts [] [E1, E2] = [E2, E1]"
  "queryPosts ''hello'' [E1, E2] = [E1]"
  "queryPosts ''xyz'' [E1, E2] = []"
  by (simp_all add: posts_flushPosts insertMany_def insert_or_ignore_def init_state_def
      queryPosts_def order_by_timestamp_desc_def sqlite3Tolower_def E1_def E2_def E3_def)

section \<open>The filtered query\<close>






section \<open>The idempotent insert\<close>

text \<open>
  C2: when the table holds a row \<open>r\<close> and a flush carries an event \<open>p\<close> with the uri
  of \<open>r\<close>, the table has afterwards exactly one row with that uri, and it is \<open>r\<close>
  itself, with the author, text and timestamp it had; the flush returns a state, it does
  not fail. The uris of a table are distinct, and stay so.
\<close>

theorem flushPosts_keeps_first_row:
  assumes "distinct (map post_uri (posts st))" and "r \<in> set (posts st)"
    and "p \<in> set (batchBuffer st)" and "post_uri p = post_uri r"
  shows "filter (\<lambda>x. post_uri x = post_uri r) (posts (flushPosts st)) = [r]
     \<and> distinct (map post_uri (posts (flushPosts st)))"
  using assms(1,2)
  by (simp add: posts_flushPosts unique_row insertMany_distinct insertMany_mem)


theorem flushPosts_keeps_first_row_witness:
  "filter (\<lambda>x. post_uri x = post_uri E1)
     (posts (flushPosts (init_state\<lparr>posts := [E1, E2], batchBuffer := [E3]\<rparr>))) = [E1]
   \<and> post_uri E3 = post_uri E1 \<and> E3 \<noteq> E1"
proof -
  let ?st = "init_state\<lparr>posts := [E1, E2], batchBuffer := [E3]\<rparr>"
  have h1: "distinct (map post_uri (posts ?st))" by (simp add: E1_def E2_def)
  have h2: "E1 \<in> set (posts ?st)" by simp
  have h3: "E3 \<in> set (batchBuffer ?st)" by simp
  have h4: "post_uri E3 = post_uri E1" by (simp add: E1_def E3_def)
  have h5: "E3 \<noteq> E1" by (simp add: E1_def E3_def)
  show ?thesis using flushPosts_keeps_first_row [OF h1 h2 h3 h4] h4 h5 by blast
qed

section \<open>The notification after a flush\<close>

text \<open>
  C3, as the code has it. A flush whose only event repeats a stored uri inserts no row
  and still emits \<open>posts.added\<close>.
\<close>

theorem flushPosts_publishes_on_duplicates:
  "posts (flushPosts (init_state\<lparr>posts := [E1], batchBuffer := [E3]\<rparr>)) = [E1]
   \<and> trace (flushPosts (init_state\<lparr>posts := [E1], batchBuffer := [E3]\<rparr>))
       = [Emitted ''posts.added'' None]"
  by (simp add: flushPosts_def emit_def init_state_def insertMany_def insert_or_ignore_def
      E1_def E3_def)

text \<open>
  C3: a flush emits \<open>posts.added\<close> once when the buffer holds at least one event,
  whether or not a row is inserted, and emits nothing when the buffer is empty.
\<close>

theorem flushPosts_publishes_iff_nonempty:
  "trace (flushPosts st) =
     (if batchBuffer st = [] then trace st else trace st @ [Emitted ''posts.added'' None])"
  by (simp add: flushPosts_def)


theorem flushPosts_publishes_iff_nonempty_witness:
  "trace (flushPosts init_state) = [] \<and>
   trace (flushPosts (init_state\<lparr>batchBuffer := [E1]\<rparr>)) = [Emitted ''posts.added'' None]"
  using flushPosts_publishes_iff_nonempty [of init_state]
    flushPosts_publishes_iff_nonempty [of "init_state\<lparr>batchBuffer := [E1]\<rparr>"]
  by (simp add: init_state_def)

section \<open>Batching\<close>



section \<open>Eviction\<close>

text \<open>
  C6: \<open>cleanupOldPosts\<close> run at time \<open>now\<close> keeps exactly the rows whose timestamp is
  not before \<open>now - 3600000\<close>, in their order. Every row before the cutoff is gone
  from the table and from the result of every later query; every row at or after the
  cutoff is still in the table, and if a query returned it before, the same query
  returns it afterwards.
\<close>

theorem cleanupOldPosts_evicts:
  "posts (cleanupOldPosts now st) = filter (\<lambda>r. now - 3600000 \<le> post_timestamp r) (posts st)
 \<and> (\<forall>r \<in> set (posts st). post_timestamp r < now - 3600000 \<longrightarrow>
       r \<notin> set (posts (cleanupOldPosts now st)) \<and> r \<notin> set (queryPosts flt (posts (cleanupOldPosts now st))))
 \<and> (\<forall>r \<in> set (posts st). now - 3600000 \<le> post_timestamp r \<longrightarrow>
       r \<in> set (posts (cleanupOldPosts now st)))
 \<and> (\<forall>r \<in> set (queryPosts flt (posts st)). now - 3600000 \<le> post_timestamp r \<longrightarrow>
       r \<in> set (queryPosts flt (posts (cleanupOldPosts now st))))"
proof -
  have a: "posts (cleanupOldPosts now st) = filter (\<lambda>r. now - 3600000 \<le> post_timestamp r) (posts st)"
    by (simp add: cleanupOldPosts_def POST_RETENTION_MS_def not_less)
  have b: "\<forall>r \<in> set (posts st). post_timestamp r < now - 3600000 \<longrightarrow>
       r \<notin> set (posts (cleanupOldPosts now st)) \<and> r \<notin> set (queryPosts flt (posts (cleanupOldPosts now st)))"
    using set_queryPosts [of flt "posts (cleanupOldPosts now st)"] unfolding a by auto
  have c: "\<forall>r \<in> set (posts st). now - 3600000 \<le> post_timestamp r \<longrightarrow>
       r \<in> set (posts (cleanupOldPosts now st))"
    unfolding a by simp
  have d: "\<forall>r \<in> set (queryPosts flt (posts st)). now - 3600000 \<le> post_timestamp r \<longrightarrow>
       r \<in> set (queryPosts flt (posts (cleanupOldPosts now st)))"
    unfolding a using queryPosts_filter_mem [of _ flt "posts st" "\<lambda>r. now - 3600000 \<le> post_timestamp r"] by blast
  show ?thesis using a b c d by blast
qed

theorem cleanupOldPosts_evicts_witness:
  "posts (cleanupOldPosts 3601500 (init_state\<lparr>posts := [E1, E2]\<rparr>)) = [E2]
   \<and> E1 \<notin> set (queryPosts [] (posts (cleanupOldPosts 3601500 (init_state\<lparr>posts := [E1, E2]\<rparr>))))
   \<and> E2 \<in> set (queryPosts [] (posts (cleanupOldPosts 3601500 (init_state\<lparr>posts := [E1, E2]\<rparr>))))"
proof -
  let ?st = "init_state\<lparr>posts := [E1, E2]\<rparr>"
  have p: "posts ?st = [E1, E2]" by simp
  have t: "post_timestamp E1 = 1000" "post_timestamp E2 = 2000" by (simp_all add: E1_def E2_def)
  have q: "E2 \<in> set (queryPosts [] (posts ?st))"
    by (simp add: queryPosts_def order_by_timestamp_desc_def t)
  have f: "filter (\<lambda>r. 3601500 - 3600000 \<le> post_timestamp r) (posts ?st) = [E2]"
    by (simp add: t)
  have old: "E1 \<in> set (posts ?st) \<and> post_timestamp E1 < 3601500 - 3600000" by (simp add: t)
  have new: "3601500 - 3600000 \<le> post_timestamp E2" by (simp add: t)
  note th = cleanupOldPosts_evicts [of 3601500 ?st "[]"]
  have a: "posts (cleanupOldPosts 3601500 ?st) = [E2]" using th f by simp
  have b: "E1 \<notin> set (queryPosts [] (posts (cleanupOldPosts 3601500 ?st)))" using th old by blast
  have c: "E2 \<in> set (queryPosts [] (posts (cleanupOldPosts 3601500 ?st)))" using th q new by blast
  show ?thesis using a b c by blast
qed

section \<open>Facts about listeners and connections\<close>

lemma set_tab_filter_fields [simp]:
  "posts (set_tab_filter r v st) = posts st"
  "batchBuffer (set_tab_filter r v st) = batchBuffer st"
  "sessions (set_tab_filter r v st) = sessions st"
  "tabs (set_tab_filter r v st) = tabs st"
  "next_ref (set_tab_filter r v st) = next_ref st"
  "events (set_tab_filter r v st) = events st"
  "conns (set_tab_filter r v st) = conns st"
  "next_conn (set_tab_filter r v st) = next_conn st"
  "trace (set_tab_filter r v st) = trace st"
  "tab_id (heap (set_tab_filter r v st) r') = tab_id (heap st r')"
  "tab_filter (heap (set_tab_filter r v st) r') = (if r' = r then v else tab_filter (heap st r'))"
  by (simp_all add: set_tab_filter_def)

lemma updateQueue_emit_conns:
  "conns (updateQueue_emit c' st) c =
     (if c = c' \<and> \<not> lc_aborted (conns st c)
      then (conns st c)\<lparr>lc_pending := lc_pending (conns st c) + 1\<rparr> else conns st c)"
  by (simp add: updateQueue_emit_def)

lemma call_listener_conn_static [simp]:
  "lc_tab (conns (call_listener l a st) c) = lc_tab (conns st c)"
  "lc_session (conns (call_listener l a st) c) = lc_session (conns st c)"
  "lc_aborted (conns (call_listener l a st) c) = lc_aborted (conns st c)"
  by (cases l; simp add: updateQueue_emit_conns)+

lemma fold_call_conn_static [simp]:
  "lc_tab (conns (fold (\<lambda>l. call_listener l a) ls st) c) = lc_tab (conns st c)"
  "lc_session (conns (fold (\<lambda>l. call_listener l a) ls st) c) = lc_session (conns st c)"
  "lc_aborted (conns (fold (\<lambda>l. call_listener l a) ls st) c) = lc_aborted (conns st c)"
  by (induction ls arbitrary: st; simp)+

lemma emit_conn_static [simp]:
  "lc_tab (conns (emit n a st) c) = lc_tab (conns st c)"
  "lc_session (conns (emit n a st) c) = lc_session (conns st c)"
  "lc_aborted (conns (emit n a st) c) = lc_aborted (conns st c)"
  by (simp_all add: emit_def)

lemma call_listener_other:
  "listener_conn l \<noteq> c \<Longrightarrow> conns (call_listener l a st) c = conns st c"
  by (cases l) (simp_all add: updateQueue_emit_conns)

lemma call_listener_aborted:
  "lc_aborted (conns st c) \<Longrightarrow> conns (call_listener l a st) c = conns st c"
  by (cases l) (simp_all add: updateQueue_emit_conns)

lemma fold_call_aborted:
  "lc_aborted (conns st c) \<Longrightarrow> conns (fold (\<lambda>l. call_listener l a) ls st) c = conns st c"
proof (induction ls arbitrary: st)
  case Nil
  then show ?case by simp
next
  case (Cons l ls)
  have "lc_aborted (conns (call_listener l a st) c)" using Cons.prems by simp
  then have "conns (fold (\<lambda>l. call_listener l a) ls (call_listener l a st)) c = conns (call_listener l a st) c"
    by (rule Cons.IH)
  then show ?case using Cons.prems by (simp add: call_listener_aborted)
qed

lemma fold_call_absent:
  "\<forall>l \<in> set ls. listener_conn l \<noteq> c \<Longrightarrow> conns (fold (\<lambda>l. call_listener l a) ls st) c = conns st c"
  by (induction ls arbitrary: st) (simp_all add: call_listener_other)

lemma fold_filter_listeners:
  assumes "\<forall>l \<in> set ls. is_filter_listener l" and "distinct ls"
  shows "conns (fold (\<lambda>l. call_listener l (Some a)) ls st) c =
     (if FilterListener c \<in> set ls \<and> tab_id (heap st (lc_tab (conns st c))) = a
         \<and> \<not> lc_aborted (conns st c)
      then (conns st c)\<lparr>lc_pending := lc_pending (conns st c) + 1\<rparr> else conns st c)"
  using assms
proof (induction ls arbitrary: st)
  case Nil
  then show ?case by simp
next
  case (Cons l ls)
  obtain c' where l: "l = FilterListener c'" using Cons.prems(1) by (cases l) auto
  let ?st' = "call_listener l (Some a) st"
  have ih: "conns (fold (\<lambda>l. call_listener l (Some a)) ls ?st') c =
     (if FilterListener c \<in> set ls \<and> tab_id (heap ?st' (lc_tab (conns ?st' c))) = a
         \<and> \<not> lc_aborted (conns ?st' c)
      then (conns ?st' c)\<lparr>lc_pending := lc_pending (conns ?st' c) + 1\<rparr> else conns ?st' c)"
    using Cons.prems by (intro Cons.IH) auto
  show ?case
  proof (cases "c' = c")
    case True
    then have "FilterListener c \<notin> set ls" using Cons.prems(2) l by simp
    then show ?thesis using ih l True by (simp add: updateQueue_emit_conns)
  next
    case False
    then have "listener_conn l \<noteq> c" using l by simp
    then have "conns ?st' c = conns st c" by (rule call_listener_other)
    then show ?thesis using ih l False by simp
  qed
qed

lemma set_remove_last: "distinct xs \<Longrightarrow> set (remove_last x xs) = set xs - {x}"
  by (simp add: remove_last_def)

lemma distinct_remove_last: "distinct xs \<Longrightarrow> distinct (remove_last x xs)"
  by (simp add: remove_last_def)

lemma emit_aborted:
  "lc_aborted (conns st c) \<Longrightarrow> conns (emit n a st) c = conns st c"
  by (simp add: emit_def fold_call_aborted)

lemma abort_live:
  assumes "\<not> lc_aborted (conns st c)"
  shows "tabs (abort c st) = (tabs st)(tab_id (heap st (lc_tab (conns st c))) := None)"
    and "events (abort c st) = (events st)
           (''posts.added'' := remove_last (PostsListener c) (events st ''posts.added''),
            ''filter.updated'' := remove_last (FilterListener c) (events st ''filter.updated''))"
    and "conns (abort c st) = (conns st)(c := (conns st c)\<lparr>lc_aborted := True\<rparr>)"
    and "heap (abort c st) = heap st" and "next_ref (abort c st) = next_ref st"
    and "next_conn (abort c st) = next_conn st" and "posts (abort c st) = posts st"
    and "trace (abort c st) = trace st"
  using assms by (simp_all add: abort_def events_off_def Let_def fun_upd_twist)

lemma post_filter_ok:
  assumes "body_tabId body = Some k" "k \<noteq> []" "tabs st k = Some r"
  shows "post_filter body st =
     (NullBody, emit ''filter.updated'' (Some (tab_id (heap st r)))
                  (set_tab_filter r (or_else (body_filter body) []) st))"
  using assms by (simp add: post_filter_def truthy_def Let_def)

lemma sendUpdate_emit [simp]: "sendUpdate c (emit n a st) = sendUpdate c st"
  by (simp add: sendUpdate_def)


section \<open>The registries stay in order\<close>

lemma registries_ok_cong:
  assumes "tabs st' = tabs st" "\<forall>r. tab_id (heap st' r) = tab_id (heap st r)" "next_ref st' = next_ref st"
    "events st' = events st" "next_conn st' = next_conn st"
  shows "registries_ok st' = registries_ok st"
  using assms by (simp add: registries_ok_def)

lemma registries_ok_init: "registries_ok init_state"
  by (simp add: registries_ok_def init_state_def)

lemma registries_ok_emit: "registries_ok (emit n a st) = registries_ok st"
  by (rule registries_ok_cong) simp_all

lemma registries_ok_flushPosts: "registries_ok (flushPosts st) = registries_ok st"
  by (simp add: flushPosts_def registries_ok_emit) (simp add: registries_ok_def)

lemma registries_ok_addPost: "registries_ok (addPost p st) = registries_ok st"
  by (simp add: addPost_def Let_def registries_ok_flushPosts) (simp add: registries_ok_def)

lemma registries_ok_cleanupOldPosts: "registries_ok (cleanupOldPosts now st) = registries_ok st"
  by (simp add: cleanupOldPosts_def Let_def registries_ok_def)

lemma registries_ok_post_filter: "registries_ok (snd (post_filter body st)) = registries_ok st"
proof (cases "truthy (body_tabId body)")
  case False
  then show ?thesis by (simp add: post_filter_def)
next
  case True
  show ?thesis
  proof (cases "tabs st (the (body_tabId body))")
    case None
    then show ?thesis using True by (simp add: post_filter_def)
  next
    case (Some r)
    have "registries_ok (set_tab_filter r v st) = registries_ok st" for v
      by (rule registries_ok_cong) simp_all
    then show ?thesis using True Some by (simp add: post_filter_def Let_def registries_ok_emit)
  qed
qed

lemma registries_ok_abort:
  assumes "registries_ok st"
  shows "registries_ok (abort c st)"
proof (cases "lc_aborted (conns st c)")
  case True
  then show ?thesis using assms by (simp add: abort_def)
next
  case False
  note ab = abort_live [OF False]
  have d: "distinct (events st n)" for n using assms by (simp add: registries_ok_def)
  have sub: "set (events (abort c st) n) \<subseteq> set (events st n)" for n
    by (auto simp: ab(2) set_remove_last d)
  have dis: "distinct (events (abort c st) n)" for n
    by (simp add: ab(2) distinct_remove_last d)
  have w1: "\<forall>k r. tabs (abort c st) k = Some r \<longrightarrow> tab_id (heap (abort c st) r) = k \<and> r < next_ref (abort c st)"
    using assms by (auto simp: ab registries_ok_def split: if_splits)
  have w2: "\<forall>n l. l \<in> set (events (abort c st) n) \<longrightarrow> listener_conn l < next_conn (abort c st)"
    using assms sub unfolding registries_ok_def ab(6) by blast
  have w4: "\<forall>l \<in> set (events (abort c st) ''filter.updated''). is_filter_listener l"
    using assms sub unfolding registries_ok_def by blast
  show ?thesis unfolding registries_ok_def using w1 w2 dis w4 by blast
qed

lemma getOrCreateSession_fields [simp]:
  "tabs (snd (getOrCreateSession sid u nm st)) = tabs st"
  "heap (snd (getOrCreateSession sid u nm st)) = heap st"
  "next_ref (snd (getOrCreateSession sid u nm st)) = next_ref st"
  "events (snd (getOrCreateSession sid u nm st)) = events st"
  "conns (snd (getOrCreateSession sid u nm st)) = conns st"
  "next_conn (snd (getOrCreateSession sid u nm st)) = next_conn st"
  "posts (snd (getOrCreateSession sid u nm st)) = posts st"
  "trace (snd (getOrCreateSession sid u nm st)) = trace st"
  by (simp_all add: getOrCreateSession_def Let_def split: option.splits)

lemma registries_ok_getOrCreateSession:
  "registries_ok (snd (getOrCreateSession sid u nm st)) = registries_ok st"
  by (rule registries_ok_cong) simp_all

lemma getOrCreateTab_fields [simp]:
  "events (snd (getOrCreateTab tid sid u st)) = events st"
  "conns (snd (getOrCreateTab tid sid u st)) = conns st"
  "next_conn (snd (getOrCreateTab tid sid u st)) = next_conn st"
  "posts (snd (getOrCreateTab tid sid u st)) = posts st"
  "trace (snd (getOrCreateTab tid sid u st)) = trace st"
  by (simp_all add: getOrCreateTab_def Let_def split: option.splits)

lemma registries_ok_getOrCreateTab:
  assumes "registries_ok st"
  shows "registries_ok (snd (getOrCreateTab tid sid u st))"
proof (cases "lookup_truthy (tabs st) tid")
  case (Some r)
  then show ?thesis using assms by (simp add: getOrCreateTab_def)
next
  case None
  have w1: "\<forall>k r. tabs st k = Some r \<longrightarrow> tab_id (heap st r) = k \<and> r < next_ref st"
    using assms by (simp add: registries_ok_def)
  have "\<forall>k r. tabs (snd (getOrCreateTab tid sid u st)) k = Some r \<longrightarrow>
          tab_id (heap (snd (getOrCreateTab tid sid u st)) r) = k \<and> r < next_ref (snd (getOrCreateTab tid sid u st))"
    using w1 None by (fastforce simp: getOrCreateTab_def Let_def split: if_splits)
  then show ?thesis using assms unfolding registries_ok_def by simp
qed


lemma get_root_plain:
  assumes "\<not> isDatastarRequest req"
  shows "get_root req st =
     (HtmlPage (fst (getOrCreateSession (cookie_sessionId req) (session_uuid req) (session_name_gen req) st))
        \<lparr>tab_id = tab_uuid req,
         tab_sessionId = session_id (fst (getOrCreateSession (cookie_sessionId req) (session_uuid req) (session_name_gen req) st)),
         tab_filter = []\<rparr>,
      snd (getOrCreateSession (cookie_sessionId req) (session_uuid req) (session_name_gen req) st))"
  using assms by (simp add: get_root_def Let_def split_beta)

lemma get_root_live:
  assumes "isDatastarRequest req"
  shows "get_root req st =
    (let s1 = getOrCreateSession (fst (live_ids req)) (session_uuid req) (session_name_gen req) st;
         t2 = getOrCreateTab (snd (live_ids req)) (session_id (fst s1)) (tab_uuid req) (snd s1);
         c = next_conn (snd t2)
     in (SseStream c,
         events_on ''filter.updated'' (FilterListener c)
           (events_on ''posts.added'' (PostsListener c)
              ((snd t2)\<lparr>conns := (conns (snd t2))(c := \<lparr>lc_session = fst s1, lc_tab = fst t2,
                                                       lc_pending = 0, lc_aborted = False\<rparr>),
                        next_conn := c + 1\<rparr>))))"
  using assms by (simp add: get_root_def live_ids_def Let_def split_beta split: option.splits)

lemma registries_ok_subscribe:
  assumes "registries_ok st"
  shows "registries_ok (events_on ''filter.updated'' (FilterListener (next_conn st))
           (events_on ''posts.added'' (PostsListener (next_conn st))
              (st\<lparr>conns := cs, next_conn := next_conn st + 1\<rparr>)))"
proof -
  let ?c = "next_conn st"
  have lt: "\<forall>n l. l \<in> set (events st n) \<longrightarrow> listener_conn l < ?c"
    using assms by (simp add: registries_ok_def)
  have np: "PostsListener ?c \<notin> set (events st n)" for n using lt by fastforce
  have nf: "FilterListener ?c \<notin> set (events st n)" for n using lt by fastforce
  have d: "distinct (events st n)" for n using assms by (simp add: registries_ok_def)
  have f: "\<forall>l \<in> set (events st ''filter.updated''). is_filter_listener l"
    using assms by (simp add: registries_ok_def)
  have w1: "\<forall>k r. tabs st k = Some r \<longrightarrow> tab_id (heap st r) = k \<and> r < next_ref st"
    using assms by (simp add: registries_ok_def)
  show ?thesis
    unfolding registries_ok_def events_on_def
    using w1 lt np nf d f by (auto simp: less_Suc_eq)
qed

lemma registries_ok_get_root:
  assumes "registries_ok st"
  shows "registries_ok (snd (get_root req st))"
proof (cases "isDatastarRequest req")
  case False
  then show ?thesis using assms by (simp add: get_root_plain registries_ok_getOrCreateSession)
next
  case True
  let ?s1 = "getOrCreateSession (fst (live_ids req)) (session_uuid req) (session_name_gen req) st"
  let ?t2 = "getOrCreateTab (snd (live_ids req)) (session_id (fst ?s1)) (tab_uuid req) (snd ?s1)"
  have "registries_ok (snd ?s1)" using assms by (simp add: registries_ok_getOrCreateSession)
  then have ok: "registries_ok (snd ?t2)" by (rule registries_ok_getOrCreateTab)
  show ?thesis unfolding get_root_live [OF True] Let_def snd_conv
    by (rule registries_ok_subscribe [OF ok])
qed

lemma registries_ok_step: "registries_ok st \<Longrightarrow> registries_ok (step a st)"
  by (cases a) (simp_all add: registries_ok_addPost registries_ok_flushPosts
      registries_ok_cleanupOldPosts registries_ok_get_root registries_ok_post_filter
      registries_ok_abort)

lemma registries_ok_run: "registries_ok st \<Longrightarrow> registries_ok (fold step acts st)"
  by (induction acts arbitrary: st) (simp_all add: registries_ok_step)

lemma registries_ok_reachable: "registries_ok (fold step acts init_state)"
  by (rule registries_ok_run [OF registries_ok_init])

section \<open>Facts about the tab registry and the sample state\<close>

lemma tabs_flushPosts [simp]: "tabs (flushPosts st) = tabs st"
  by (simp add: flushPosts_def)

lemma tabs_addPost [simp]: "tabs (addPost p st) = tabs st"
  by (simp add: addPost_def Let_def)

lemma tabs_cleanupOldPosts [simp]: "tabs (cleanupOldPosts now st) = tabs st"
  by (simp add: cleanupOldPosts_def Let_def)

lemma tabs_post_filter [simp]: "tabs (snd (post_filter body st)) = tabs st"
  by (simp add: post_filter_def Let_def split: option.splits)








lemma two_tabs_tabs: "tabs two_tabs = [''tab-A'' \<mapsto> 0, ''tab-B'' \<mapsto> 1]"
  by (simp add: two_tabs_def get_root_live req_A_def req_B_def live_ids_def truthy_def
      getOrCreateSession_def getOrCreateTab_def lookup_truthy_def or_else_def init_state_def
      events_on_def Let_def)

lemma two_tabs_heap:
  "heap two_tabs 0 = \<lparr>tab_id = ''tab-A'', tab_sessionId = ''session-1'', tab_filter = []\<rparr>"
  "heap two_tabs (Suc 0) = \<lparr>tab_id = ''tab-B'', tab_sessionId = ''session-1'', tab_filter = []\<rparr>"
  by (simp_all add: two_tabs_def get_root_live req_A_def req_B_def live_ids_def truthy_def
      getOrCreateSession_def getOrCreateTab_def lookup_truthy_def or_else_def init_state_def
      events_on_def Let_def)

lemma two_tabs_conns:
  "conns two_tabs 0 = \<lparr>lc_session = \<lparr>session_id = ''session-1'', session_name = ''happy-fox''\<rparr>,
       lc_tab = 0, lc_pending = 0, lc_aborted = False\<rparr>"
  "conns two_tabs (Suc 0) = \<lparr>lc_session = \<lparr>session_id = ''session-1'', session_name = ''happy-fox''\<rparr>,
       lc_tab = 1, lc_pending = 0, lc_aborted = False\<rparr>"
  by (simp_all add: two_tabs_def get_root_live req_A_def req_B_def live_ids_def truthy_def
      getOrCreateSession_def getOrCreateTab_def lookup_truthy_def or_else_def init_state_def
      events_on_def Let_def)

lemma two_tabs_events:
  "events two_tabs ''posts.added'' = [PostsListener 0, PostsListener 1]"
  "events two_tabs ''filter.updated'' = [FilterListener 0, FilterListener 1]"
  by (simp_all add: two_tabs_def get_root_live req_A_def req_B_def live_ids_def truthy_def
      getOrCreateSession_def getOrCreateTab_def lookup_truthy_def or_else_def init_state_def
      events_on_def Let_def)

lemma two_tabs_ok: "registries_ok two_tabs"
  unfolding two_tabs_def by (rule registries_ok_reachable)

section \<open>The minimum filter length\<close>



section \<open>The filter update\<close>

text \<open>
  C7: a filter update without a tab id (none, or the empty string) is answered with
  status 400, one with a tab id that the map \<open>tabs\<close> does not hold with status 404, and
  in both cases the state is the one before: no filter changes and nothing is emitted. An
  update for a registered tab answers with an empty body, sets the filter of that tab to
  the filter of the request (empty when the request has none), leaves the filter of every
  other registered tab as it was, and emits \<open>filter.updated\<close> once, with that tab's id.
\<close>

theorem post_filter_contract:
  "(\<not> truthy (body_tabId body) \<longrightarrow>
       post_filter body st = (JsonError ''Missing tab ID'' 400, st))
 \<and> (body_tabId body = Some k \<and> k \<noteq> [] \<and> tabs st k = None \<longrightarrow>
       post_filter body st = (JsonError ''Tab not found'' 404, st))
 \<and> (registries_ok st \<and> body_tabId body = Some k \<and> k \<noteq> [] \<and> tabs st k = Some r \<longrightarrow>
       fst (post_filter body st) = NullBody
     \<and> tabs (snd (post_filter body st)) = tabs st
     \<and> view_filter (snd (post_filter body st)) k = Some (or_else (body_filter body) [])
     \<and> (\<forall>k'. k' \<noteq> k \<longrightarrow> view_filter (snd (post_filter body st)) k' = view_filter st k')
     \<and> trace (snd (post_filter body st)) = trace st @ [Emitted ''filter.updated'' (Some k)])"
proof -
  have a: "\<not> truthy (body_tabId body) \<longrightarrow>
       post_filter body st = (JsonError ''Missing tab ID'' 400, st)"
    by (simp add: post_filter_def)
  have b: "body_tabId body = Some k \<and> k \<noteq> [] \<and> tabs st k = None \<longrightarrow>
       post_filter body st = (JsonError ''Tab not found'' 404, st)"
    by (simp add: post_filter_def truthy_def)
  have c: "fst (post_filter body st) = NullBody
     \<and> tabs (snd (post_filter body st)) = tabs st
     \<and> view_filter (snd (post_filter body st)) k = Some (or_else (body_filter body) [])
     \<and> (\<forall>k'. k' \<noteq> k \<longrightarrow> view_filter (snd (post_filter body st)) k' = view_filter st k')
     \<and> trace (snd (post_filter body st)) = trace st @ [Emitted ''filter.updated'' (Some k)]"
    if h: "registries_ok st" "body_tabId body = Some k" "k \<noteq> []" "tabs st k = Some r"
  proof -
    note pf = post_filter_ok [OF h(2,3,4)]
    have id: "tab_id (heap st r) = k" using h(1,4) by (simp add: registries_ok_def)
    have other: "view_filter (snd (post_filter body st)) k' = view_filter st k'" if "k' \<noteq> k" for k'
    proof (cases "tabs st k'")
      case None
      then show ?thesis by (simp add: pf view_filter_def)
    next
      case (Some r')
      then have "tab_id (heap st r') = k'" using h(1) by (simp add: registries_ok_def)
      then have "r' \<noteq> r" using id that by auto
      then show ?thesis using Some by (simp add: pf view_filter_def)
    qed
    show ?thesis using other by (simp add: pf view_filter_def h(4) id)
  qed
  show ?thesis using a b c by blast
qed

theorem post_filter_contract_witness:
  "post_filter \<lparr>body_tabId = None, body_filter = Some ''hello''\<rparr> two_tabs
     = (JsonError ''Missing tab ID'' 400, two_tabs)
   \<and> post_filter \<lparr>body_tabId = Some ''tab-Z'', body_filter = Some ''hello''\<rparr> two_tabs
     = (JsonError ''Tab not found'' 404, two_tabs)
   \<and> fst (post_filter \<lparr>body_tabId = Some ''tab-A'', body_filter = Some ''hello''\<rparr> two_tabs) = NullBody
   \<and> view_filter (snd (post_filter \<lparr>body_tabId = Some ''tab-A'', body_filter = Some ''hello''\<rparr> two_tabs))
       ''tab-A'' = Some ''hello''
   \<and> view_filter (snd (post_filter \<lparr>body_tabId = Some ''tab-A'', body_filter = Some ''hello''\<rparr> two_tabs))
       ''tab-B'' = Some []
   \<and> trace (snd (post_filter \<lparr>body_tabId = Some ''tab-A'', body_filter = Some ''hello''\<rparr> two_tabs))
       = trace two_tabs @ [Emitted ''filter.updated'' (Some ''tab-A'')]"
proof -
  let ?b1 = "\<lparr>body_tabId = None, body_filter = Some ''hello''\<rparr>"
  let ?b2 = "\<lparr>body_tabId = Some ''tab-Z'', body_filter = Some ''hello''\<rparr>"
  let ?b3 = "\<lparr>body_tabId = Some ''tab-A'', body_filter = Some ''hello''\<rparr>"
  have 1: "post_filter ?b1 two_tabs = (JsonError ''Missing tab ID'' 400, two_tabs)"
    using post_filter_contract [of ?b1 two_tabs] by (simp add: truthy_def)
  have 2: "post_filter ?b2 two_tabs = (JsonError ''Tab not found'' 404, two_tabs)"
    using post_filter_contract [of ?b2 two_tabs "''tab-Z''"] by (simp add: two_tabs_tabs)
  have vb: "view_filter two_tabs ''tab-B'' = Some []"
    by (simp add: view_filter_def two_tabs_tabs two_tabs_heap)
  have h: "registries_ok two_tabs \<and> body_tabId ?b3 = Some ''tab-A'' \<and> ''tab-A'' \<noteq> []
            \<and> tabs two_tabs ''tab-A'' = Some 0"
    by (simp add: two_tabs_ok two_tabs_tabs)
  have 3: "fst (post_filter ?b3 two_tabs) = NullBody
     \<and> view_filter (snd (post_filter ?b3 two_tabs)) ''tab-A'' = Some ''hello''
     \<and> view_filter (snd (post_filter ?b3 two_tabs)) ''tab-B'' = Some []
     \<and> trace (snd (post_filter ?b3 two_tabs)) = trace two_tabs @ [Emitted ''filter.updated'' (Some ''tab-A'')]"
    using post_filter_contract [of ?b3 two_tabs "''tab-A''" 0] h vb by (simp add: or_else_def)
  show ?thesis using 1 2 3 by blast
qed

section \<open>The scoped notification\<close>

text \<open>
  C8: when \<open>filter.updated\<close> is emitted with tab id \<open>a\<close>, a connection whose tab has
  another id is left exactly as it was, so no update is queued for it; the number of
  queued updates of a connection grows by one if its filter listener is registered, its
  tab has id \<open>a\<close> and it is not aborted, and stays the same otherwise.
\<close>

theorem filter_updated_is_scoped:
  assumes "registries_ok st"
  shows "(tab_id (heap st (lc_tab (conns st c))) \<noteq> a \<longrightarrow>
            conns (emit ''filter.updated'' (Some a) st) c = conns st c)
       \<and> lc_pending (conns (emit ''filter.updated'' (Some a) st) c) =
           lc_pending (conns st c) +
             (if FilterListener c \<in> set (events st ''filter.updated'')
                 \<and> tab_id (heap st (lc_tab (conns st c))) = a \<and> \<not> lc_aborted (conns st c)
              then 1 else 0)"
proof -
  let ?st0 = "st\<lparr>trace := trace st @ [Emitted ''filter.updated'' (Some a)]\<rparr>"
  have 1: "\<forall>l \<in> set (events st ''filter.updated''). is_filter_listener l"
    using assms by (simp add: registries_ok_def)
  have 2: "distinct (events st ''filter.updated'')"
    using assms by (simp add: registries_ok_def)
  have "conns (emit ''filter.updated'' (Some a) st) c =
     (if FilterListener c \<in> set (events st ''filter.updated'') \<and> tab_id (heap ?st0 (lc_tab (conns ?st0 c))) = a
         \<and> \<not> lc_aborted (conns ?st0 c)
      then (conns ?st0 c)\<lparr>lc_pending := lc_pending (conns ?st0 c) + 1\<rparr> else conns ?st0 c)"
    unfolding emit_def by (rule fold_filter_listeners [OF 1 2])
  then show ?thesis by simp
qed

theorem filter_updated_is_scoped_witness:
  "registries_ok two_tabs
   \<and> tab_id (heap two_tabs (lc_tab (conns two_tabs 1))) = ''tab-B''
   \<and> conns (emit ''filter.updated'' (Some ''tab-A'') two_tabs) 1 = conns two_tabs 1
   \<and> lc_pending (conns (emit ''filter.updated'' (Some ''tab-A'') two_tabs) 0) = 1"
proof -
  have b: "tab_id (heap two_tabs (lc_tab (conns two_tabs 1))) = ''tab-B''"
    by (simp add: two_tabs_conns two_tabs_heap)
  have a: "tab_id (heap two_tabs (lc_tab (conns two_tabs 0))) = ''tab-A''"
    by (simp add: two_tabs_conns two_tabs_heap)
  have 1: "conns (emit ''filter.updated'' (Some ''tab-A'') two_tabs) 1 = conns two_tabs 1"
    using filter_updated_is_scoped [OF two_tabs_ok, of 1 "''tab-A''"] b by simp
  have 0: "lc_pending (conns (emit ''filter.updated'' (Some ''tab-A'') two_tabs) 0) = 1"
    using filter_updated_is_scoped [OF two_tabs_ok, of 0 "''tab-A''"] a
    by (simp add: two_tabs_conns two_tabs_events)
  show ?thesis using two_tabs_ok b 1 0 by blast
qed

section \<open>Cleanup on close\<close>

text \<open>
  C9: after the abort of a live connection, the id of its tab is not in the map
  \<open>tabs\<close>, its posts listener is not registered under \<open>posts.added\<close>, its filter
  listener is not registered under \<open>filter.updated\<close>, and no later emit, of any
  event with any argument, changes the connection: no update is queued for it any more.
\<close>

theorem abort_cleans_up:
  assumes "registries_ok st" and "\<not> lc_aborted (conns st c)"
  shows "tabs (abort c st) (tab_id (heap st (lc_tab (conns st c)))) = None
       \<and> PostsListener c \<notin> set (events (abort c st) ''posts.added'')
       \<and> FilterListener c \<notin> set (events (abort c st) ''filter.updated'')
       \<and> (\<forall>n a. conns (emit n a (abort c st)) c = conns (abort c st) c)"
proof -
  have d: "distinct (events st n)" for n using assms(1) by (simp add: registries_ok_def)
  have a: "tabs (abort c st) (tab_id (heap st (lc_tab (conns st c)))) = None"
    by (simp add: abort_live(1) [OF assms(2)])
  have b: "PostsListener c \<notin> set (events (abort c st) ''posts.added'')"
    by (simp add: abort_live(2) [OF assms(2)] set_remove_last d)
  have c: "FilterListener c \<notin> set (events (abort c st) ''filter.updated'')"
    by (simp add: abort_live(2) [OF assms(2)] set_remove_last d)
  have "lc_aborted (conns (abort c st) c)"
    by (simp add: abort_live(3) [OF assms(2)])
  then have e: "\<forall>n a. conns (emit n a (abort c st)) c = conns (abort c st) c"
    by (simp add: emit_aborted)
  show ?thesis using a b c e by blast
qed

theorem abort_cleans_up_witness:
  "registries_ok two_tabs \<and> \<not> lc_aborted (conns two_tabs 0)
   \<and> tabs two_tabs ''tab-A'' = Some 0
   \<and> tabs (abort 0 two_tabs) ''tab-A'' = None
   \<and> PostsListener 0 \<notin> set (events (abort 0 two_tabs) ''posts.added'')
   \<and> FilterListener 0 \<notin> set (events (abort 0 two_tabs) ''filter.updated'')
   \<and> conns (emit ''posts.added'' None (abort 0 two_tabs)) 0 = conns (abort 0 two_tabs) 0"
proof -
  have l: "\<not> lc_aborted (conns two_tabs 0)" by (simp add: two_tabs_conns)
  have a: "tab_id (heap two_tabs (lc_tab (conns two_tabs 0))) = ''tab-A''"
    by (simp add: two_tabs_conns two_tabs_heap)
  have t: "tabs two_tabs ''tab-A'' = Some 0" by (simp add: two_tabs_tabs)
  show ?thesis using abort_cleans_up [OF two_tabs_ok l] l a t two_tabs_ok by simp
qed

section \<open>The plain page\<close>



end
